theory Spec2Isabelle
  imports Main
begin

section \<open>The user model of app/models/user.server.model.js\<close>

text \<open>
  A shallow embedding of the Mongoose user model: the three validators, the pre-save
  hook with \<open>hashPassword\<close> and \<open>authenticate\<close>, and the static
  \<open>findUniqueUsername\<close>.

  Strings are lists of characters, one \<^typ>\<open>char\<close> per JavaScript code unit;
  the embedding is exact for ASCII text. A path of the schema that has no default and
  may be unset (\<open>undefined\<close>) is an \<^typ>\<open>'a option\<close>.
\<close>

subsection \<open>The record\<close>

type_synonym date = int

text \<open>
  The paths of \<open>UserSchema\<close> that the functions of the file read or write. The
  remaining paths (displayName, tagline, description, birthdate, gender, languages,
  locations, roles, seen, created, avatarSource, newsletter and the reset-password
  pair) are touched by no function of the file.
\<close>

record user =
  firstName :: string
  lastName :: string
  email :: string
  username :: "string option"
  password :: string
  emailHash :: "string option"
  salt :: "string option"
  provider :: "string option"
  updated :: "date option"

text \<open>A document as \<open>new User()\<close> creates it: the schema's defaults.\<close>

definition new_user :: user where
  "new_user = \<lparr> firstName = [], lastName = [], email = [], username = None,
     password = [], emailHash = None, salt = None, provider = None, updated = None \<rparr>"

subsection \<open>Validators\<close>

text \<open>
  A validator returns a JavaScript value and Mongoose accepts when it is truthy; the
  embedding returns that truth value.
  \<^verbatim>\<open>return ((this.provider !== 'local' && !this.updated) || property.length);\<close>
\<close>

definition validateLocalStrategyProperty :: "user \<Rightarrow> string \<Rightarrow> bool" where
  "validateLocalStrategyProperty this property =
     ((provider this \<noteq> Some ''local'' \<and> updated this = None) \<or> length property \<noteq> 0)"

text \<open>
  \<^verbatim>\<open>return (this.provider !== 'local' || (password && password.length >= 8));\<close>
\<close>

definition validateLocalStrategyPassword :: "user \<Rightarrow> string \<Rightarrow> bool" where
  "validateLocalStrategyPassword this pw =
     (provider this \<noteq> Some ''local'' \<or> (pw \<noteq> [] \<and> 8 \<le> length pw))"

text \<open>\<open>Array.prototype.indexOf\<close>: the first index of the element, or \<open>-1\<close>.\<close>

fun indexOf :: "'a list \<Rightarrow> 'a \<Rightarrow> int" where
  "indexOf [] x = - 1"
| "indexOf (y # ys) x =
     (if y = x then 0 else (let i = indexOf ys x in if i < 0 then - 1 else i + 1))"

definition in_range :: "char \<Rightarrow> char \<Rightarrow> char \<Rightarrow> bool" where
  "in_range lo hi c = ((of_char lo :: nat) \<le> of_char c \<and> (of_char c :: nat) \<le> of_char hi)"

text \<open>The character class \<^verbatim>\<open>[a-z0-9.\-_]\<close>.\<close>

definition usernameChar :: "char \<Rightarrow> bool" where
  "usernameChar c = (in_range CHR ''a'' CHR ''z'' c \<or> in_range CHR ''0'' CHR ''9'' c \<or>
     c = CHR ''.'' \<or> c = CHR ''-'' \<or> c = CHR ''_'')"

text \<open>\<^verbatim>\<open>/^[a-z0-9.\-_]{3,32}$/.test(s)\<close>: 3 to 32 characters of the class.\<close>

definition usernameRegex_test :: "string \<Rightarrow> bool" where
  "usernameRegex_test s = (3 \<le> length s \<and> length s \<le> 32 \<and> list_all usernameChar s)"

text \<open>
  \<^verbatim>\<open>/^([^.]+\.?)$/.test(s)\<close>: one or more characters other than a dot, then at
  most one dot, then the end of the string. The longest dot-free prefix is what
  \<^verbatim>\<open>[^.]+\<close> can match; what is left over must be empty or one dot.
\<close>

definition dotsRegex_test :: "string \<Rightarrow> bool" where
  "dotsRegex_test s =
     (let w = takeWhile (\<lambda>c. c \<noteq> CHR ''.'') s; r = dropWhile (\<lambda>c. c \<noteq> CHR ''.'') s
      in w \<noteq> [] \<and> (r = [] \<or> r = ''.''))"

definition illegalUsernames :: "string list" where
  "illegalUsernames = [''trustroots'', ''trust'', ''roots'', ''re'', ''re:'', ''fwd'',
     ''fwd:'', ''reply'', ''admin'', ''administrator'', ''user'', ''password'',
     ''username'', ''unknown'', ''anonymous'', ''home'', ''signup'', ''signin'', ''edit'',
     ''settings'', ''password'', ''username'', ''user'', '' demo'', ''test'']"

text \<open>
  \<^verbatim>\<open>
  return (this.provider !== 'local' || ( username &&
            usernameRegex.test(username) &&
            illegalUsernames.indexOf(username) < 0) &&
            dotsRegex.test(username));
  \<close>
  \<open>&&\<close> binds tighter than \<open>||\<close>, so the test of \<open>dotsRegex\<close> belongs to
  the right operand of \<open>||\<close>.
\<close>

definition validateUsername :: "user \<Rightarrow> string \<Rightarrow> bool" where
  "validateUsername this uname =
     (provider this \<noteq> Some ''local'' \<or>
      ((uname \<noteq> [] \<and> usernameRegex_test uname \<and> indexOf illegalUsernames uname < 0) \<and>
       dotsRegex_test uname))"

text \<open>
  The \<open>validate\<close> entries of the schema: the paths that carry a custom validator,
  and which one.
\<close>

datatype path = FirstName | LastName | Email | Username | Password

fun schema_validate :: "path \<Rightarrow> user \<Rightarrow> string \<Rightarrow> bool" where
  "schema_validate FirstName = validateLocalStrategyProperty"
| "schema_validate LastName = validateLocalStrategyProperty"
| "schema_validate Email = validateLocalStrategyProperty"
| "schema_validate Username = validateUsername"
| "schema_validate Password = validateLocalStrategyPassword"

text \<open>
  The username rule in the words of the specification, to compare with
  \<open>validateUsername\<close>: length in \<open>[3,32]\<close>, the character set, not a reserved
  word, and no substring \<open>..\<close>.
\<close>

fun has_dotdot :: "string \<Rightarrow> bool" where
  "has_dotdot [] = False"
| "has_dotdot [a] = False"
| "has_dotdot (a # b # cs) = ((a = CHR ''.'' \<and> b = CHR ''.'') \<or> has_dotdot (b # cs))"

definition spec_validUsername :: "string \<Rightarrow> bool" where
  "spec_validUsername s =
     (3 \<le> length s \<and> length s \<le> 32 \<and> list_all usernameChar s \<and>
      s \<notin> set illegalUsernames \<and> \<not> has_dotdot s)"

subsection \<open>The library functions the model calls\<close>

text \<open>
  Node's \<open>crypto\<close> module and \<open>Buffer\<close> are not code of the repository; the
  model takes them as parameters, so every theorem holds for whatever functions they
  are:
  \<^item> \<open>pbkdf2Sync password salt iterations keylen\<close>, the derived key's bytes;
  \<^item> \<open>base64\<close> for \<open>Buffer.toString('base64')\<close>;
  \<^item> \<open>md5_hex\<close> for \<open>createHash('md5').update(s).digest('hex')\<close>.
  They are functions: the same arguments give the same result.
\<close>

record crypto =
  pbkdf2Sync :: "string \<Rightarrow> string \<Rightarrow> nat \<Rightarrow> nat \<Rightarrow> string"
  base64 :: "string \<Rightarrow> string"
  md5_hex :: "string \<Rightarrow> string"

text \<open>
  \<open>String.prototype.trim\<close> and \<open>toLowerCase\<close> on ASCII text: white space is
  tab, line feed, vertical tab, form feed, carriage return and space; the letters
  \<open>A\<close> to \<open>Z\<close> map to \<open>a\<close> to \<open>z\<close>; any other character is kept.
\<close>

definition isWhiteSpace :: "char \<Rightarrow> bool" where
  "isWhiteSpace c = ((9 \<le> (of_char c :: nat) \<and> (of_char c :: nat) \<le> 13) \<or> c = CHR '' '')"

definition trim :: "string \<Rightarrow> string" where
  "trim s = rev (dropWhile isWhiteSpace (rev (dropWhile isWhiteSpace s)))"

definition lower_char :: "char \<Rightarrow> char" where
  "lower_char c =
     (case map_of (zip ''ABCDEFGHIJKLMNOPQRSTUVWXYZ'' ''abcdefghijklmnopqrstuvwxyz'') c of
        None \<Rightarrow> c
      | Some l \<Rightarrow> l)"

definition toLowerCase :: "string \<Rightarrow> string" where
  "toLowerCase s = map lower_char s"

subsection \<open>Hashing and authentication\<close>

text \<open>
  \<^verbatim>\<open>
  UserSchema.methods.hashPassword = function(password) {
    if (this.salt && password) {
      return crypto.pbkdf2Sync(password, this.salt, 10000, 64).toString('base64');
    } else {
      return password;
    }
  };
  \<close>
  An unset salt and the empty string are both falsy.
\<close>

definition hashPassword :: "crypto \<Rightarrow> user \<Rightarrow> string \<Rightarrow> string" where
  "hashPassword c this pw =
     (case salt this of
        None \<Rightarrow> pw
      | Some s \<Rightarrow>
          if s \<noteq> [] \<and> pw \<noteq> [] then base64 c (pbkdf2Sync c pw s 10000 64) else pw)"

text \<open>\<^verbatim>\<open>return this.password === this.hashPassword(password);\<close>\<close>

definition authenticate :: "crypto \<Rightarrow> user \<Rightarrow> string \<Rightarrow> bool" where
  "authenticate c this pw = (password this = hashPassword c this pw)"

text \<open>
  \<^verbatim>\<open>
  UserSchema.pre('save', function(next) {
    if (this.password && this.password.length > 6) {
      this.salt = new Buffer(crypto.randomBytes(16).toString('base64'), 'base64');
      this.password = this.hashPassword(this.password);
    }
    this.emailHash = crypto.createHash('md5')
                           .update( this.email.trim().toLowerCase() ).digest('hex');
    next();
  });
  \<close>
  The hook draws random bytes; the model takes what \<open>crypto.randomBytes(16)\<close>
  returns at this call as the argument \<open>rnd\<close>. Encoding bytes as base64 and
  decoding them again gives the bytes back, so the salt is \<open>rnd\<close>.
\<close>

definition pre_save :: "crypto \<Rightarrow> string \<Rightarrow> user \<Rightarrow> user" where
  "pre_save c rnd this =
     (let this1 =
        (if password this \<noteq> [] \<and> 6 < length (password this)
         then (let salted = this\<lparr>salt := Some rnd\<rparr>
               in salted\<lparr>password := hashPassword c salted (password salted)\<rparr>)
         else this)
      in this1\<lparr>emailHash := Some (md5_hex c (toLowerCase (trim (email this1))))\<rparr>)"

subsection \<open>Validation before a save\<close>

text \<open>
  The schema also names validators of Mongoose's own. \<open>required\<close> (on
  \<open>username\<close> and \<open>provider\<close>) asks for a string that is set and not empty.
  \<open>match\<close> (on \<open>email\<close>) lets the empty string pass and tests any other value
  with \<^verbatim>\<open>/.+\@.+\..+/\<close>: somewhere in the string, one or more characters, an
  \<open>@\<close>, one or more characters, a dot, and one more character, where a character
  is anything but a line terminator.
\<close>

definition checkRequired :: "string option \<Rightarrow> bool" where
  "checkRequired v = (case v of None \<Rightarrow> False | Some s \<Rightarrow> s \<noteq> [])"

definition anyChar :: "char \<Rightarrow> bool" where
  "anyChar c = ((of_char c :: nat) \<noteq> 10 \<and> (of_char c :: nat) \<noteq> 13)"

text \<open>\<^verbatim>\<open>\..+\<close> at the head of the string.\<close>

fun dot_part :: "string \<Rightarrow> bool" where
  "dot_part [] = False"
| "dot_part [d] = False"
| "dot_part (d # c # cs) = (d = CHR ''.'' \<and> anyChar c)"

text \<open>\<^verbatim>\<open>.+\..+\<close> at the head of the string.\<close>

fun domain_part :: "string \<Rightarrow> bool" where
  "domain_part [] = False"
| "domain_part (c # cs) = (anyChar c \<and> (dot_part cs \<or> domain_part cs))"

text \<open>\<^verbatim>\<open>\@.+\..+\<close> at the head of the string.\<close>

fun at_part :: "string \<Rightarrow> bool" where
  "at_part [] = False"
| "at_part (a # cs) = (a = CHR ''@'' \<and> domain_part cs)"

text \<open>\<^verbatim>\<open>.+\@.+\..+\<close> at the head of the string.\<close>

fun local_part :: "string \<Rightarrow> bool" where
  "local_part [] = False"
| "local_part (c # cs) = (anyChar c \<and> (at_part cs \<or> local_part cs))"

text \<open>The expression is not anchored: it may match from any position on.\<close>

fun emailRegex_test :: "string \<Rightarrow> bool" where
  "emailRegex_test [] = False"
| "emailRegex_test (c # cs) = (local_part (c # cs) \<or> emailRegex_test cs)"

text \<open>
  Mongoose validates a document before it runs the schema's own pre-save hooks: every
  validator of every path is called with the path's value (an unset username is
  falsy in \<open>validateUsername\<close>, as the empty string is). The paths of the schema
  that are left out of the record keep their defaults, which are valid.
\<close>

definition validate :: "user \<Rightarrow> bool" where
  "validate this =
     (schema_validate FirstName this (firstName this) \<and>
      schema_validate LastName this (lastName this) \<and>
      schema_validate Email this (email this) \<and>
      (email this = [] \<or> emailRegex_test (email this)) \<and>
      checkRequired (username this) \<and>
      (case username this of
         None \<Rightarrow> schema_validate Username this []
       | Some n \<Rightarrow> schema_validate Username this n) \<and>
      schema_validate Password this (password this) \<and>
      checkRequired (provider this))"

subsection \<open>Field updates and saves\<close>

text \<open>
  What a caller does to a document between creation and the next save: it assigns a
  path, or it saves. Any path can be assigned; for a path without a default, \<open>None\<close>
  is the assignment of \<open>undefined\<close>.

  An assignment goes through the setters the schema asks for: \<open>trim\<close> on
  \<open>firstName\<close> and \<open>lastName\<close>, \<open>trim\<close> and \<open>lowercase\<close> on \<open>email\<close> and
  \<open>username\<close>. Mongoose applies the setters of a path last declared first; the two
  commute (lemma \<open>toLowerCase_trim\<close>).

  A save validates first. When a validator fails the save ends there and the hook
  does not run; otherwise the pre-save hook runs, with freshly drawn random bytes.
\<close>

datatype action =
    Set_firstName string
  | Set_lastName string
  | Set_email string
  | Set_username "string option"
  | Set_password string
  | Set_emailHash "string option"
  | Set_salt "string option"
  | Set_provider "string option"
  | Set_updated "date option"
  | Save string

fun apply_action :: "crypto \<Rightarrow> user \<Rightarrow> action \<Rightarrow> user" where
  "apply_action c u (Set_firstName v) = u\<lparr>firstName := trim v\<rparr>"
| "apply_action c u (Set_lastName v) = u\<lparr>lastName := trim v\<rparr>"
| "apply_action c u (Set_email v) = u\<lparr>email := trim (toLowerCase v)\<rparr>"
| "apply_action c u (Set_username v) =
     u\<lparr>username := map_option (\<lambda>n. toLowerCase (trim n)) v\<rparr>"
| "apply_action c u (Set_password v) = u\<lparr>password := v\<rparr>"
| "apply_action c u (Set_emailHash v) = u\<lparr>emailHash := v\<rparr>"
| "apply_action c u (Set_salt v) = u\<lparr>salt := v\<rparr>"
| "apply_action c u (Set_provider v) = u\<lparr>provider := v\<rparr>"
| "apply_action c u (Set_updated d) = u\<lparr>updated := d\<rparr>"
| "apply_action c u (Save rnd) = (if validate u then pre_save c rnd u else u)"

definition run :: "crypto \<Rightarrow> user \<Rightarrow> action list \<Rightarrow> user" where
  "run c u acts = foldl (apply_action c) u acts"

text \<open>
  Stand-ins for the library, to evaluate the model at concrete inputs: each spells out
  its arguments, so different arguments give different results.
\<close>

definition stub_crypto :: crypto where
  "stub_crypto = \<lparr>
     pbkdf2Sync = (\<lambda>pw s iterations keylen. ''key('' @ pw @ '','' @ s @ '')''),
     base64 = (\<lambda>b. ''b64:'' @ b),
     md5_hex = (\<lambda>s. ''md5:'' @ s) \<rparr>"

subsection \<open>The username allocator\<close>

text \<open>
  The decimal digits of a natural number, as JavaScript prints a non-negative integer.
  A JavaScript number is a double: it counts exactly below \<open>2^53\<close> and prints in
  decimal below \<open>10^21\<close>. A suffix is at most the number of documents of the
  collection plus one, so the model counts in \<^typ>\<open>nat\<close>.
\<close>

definition digit :: "nat \<Rightarrow> char" where
  "digit d = ''0123456789'' ! (d mod 10)"

fun show_nat :: "nat \<Rightarrow> string" where
  "show_nat n = (if n < 10 then [digit n] else show_nat (n div 10) @ [digit (n mod 10)])"

text \<open>
  The parameter \<open>suffix\<close> is \<open>undefined\<close> or \<open>null\<close> on the first call
  (\<open>None\<close>) and a number afterwards. \<^verbatim>\<open>(suffix || '')\<close> is the empty string
  for an unset suffix and for \<open>0\<close>; \<^verbatim>\<open>(suffix || 0) + 1\<close> is the next suffix.
\<close>

fun suffix_or_empty :: "nat option \<Rightarrow> string" where
  "suffix_or_empty None = []"
| "suffix_or_empty (Some n) = (if n = 0 then [] else show_nat n)"

fun suffix_or_zero :: "nat option \<Rightarrow> nat" where
  "suffix_or_zero None = 0"
| "suffix_or_zero (Some n) = n"

text \<open>
  The storage collaborator: \<open>findOne({username: q}, cb)\<close> calls \<open>cb(err, user)\<close>;
  \<open>Inl err\<close> is a call with an error, \<open>Inr None\<close> no document, \<open>Inr (Some user)\<close>
  a document. An error-free collection is a list of documents, and looks up the first
  whose username is \<open>q\<close>.
\<close>

type_synonym ('e, 'u) findOne = "string \<Rightarrow> 'e + 'u option"

definition lookup :: "user list \<Rightarrow> string \<Rightarrow> user option" where
  "lookup db q = find (\<lambda>u. username u = Some q) db"

definition collection_findOne :: "user list \<Rightarrow> ('e, user) findOne" where
  "collection_findOne db q = Inr (lookup db q)"

text \<open>
  \<^verbatim>\<open>
  UserSchema.statics.findUniqueUsername = function(username, suffix, callback) {
    var _this = this;
    var possibleUsername = username + (suffix || '');
    _this.findOne({ username: possibleUsername }, function(err, user) {
      if (!err) {
        if (!user) {
          callback(possibleUsername);
        } else {
          return _this.findUniqueUsername(username, (suffix || 0) + 1, callback);
        }
      } else {
        callback(null);
      }
    });
  };
  \<close>
  The result is what the callback is called with: \<open>Some name\<close>, or \<open>None\<close> for
  \<open>null\<close>. The recursion has no bound, so the function is partial: the outer
  \<open>None\<close> is a run that never calls the callback. The queries sent to the storage
  are an effect of the run; \<open>probes\<close> collects them in order, and is returned with
  the result.
\<close>

partial_function (option) findUniqueUsername ::
  "('e, 'u) findOne \<Rightarrow> string \<Rightarrow> nat option \<Rightarrow> string list \<Rightarrow> (string list \<times> string option) option"
where
  "findUniqueUsername findOne uname suffix probes =
     (let possibleUsername = uname @ suffix_or_empty suffix in
      case findOne possibleUsername of
        Inr None \<Rightarrow> Some (probes @ [possibleUsername], Some possibleUsername)
      | Inr (Some user) \<Rightarrow>
          findUniqueUsername findOne uname (Some (suffix_or_zero suffix + 1))
            (probes @ [possibleUsername])
      | Inl err \<Rightarrow> Some (probes @ [possibleUsername], None))"

declare findUniqueUsername.simps [code]

declare show_nat.simps [simp del]

section \<open>The validators\<close>

lemma indexOf_neg: "indexOf xs x < 0 \<longleftrightarrow> x \<notin> set xs"
  by (induction xs) (auto simp: Let_def)

text \<open>
  \<open>dotsRegex_test\<close> decides the language of the regular expression: a non-empty word
  without a dot, followed by at most one dot.
\<close>

lemma takeWhile_nodot:
  "CHR ''.'' \<notin> set w \<Longrightarrow> takeWhile (\<lambda>c. c \<noteq> CHR ''.'') w = w"
  "CHR ''.'' \<notin> set w \<Longrightarrow> takeWhile (\<lambda>c. c \<noteq> CHR ''.'') (w @ ''.'') = w"
  by (induction w) auto

lemma dropWhile_nodot:
  "CHR ''.'' \<notin> set w \<Longrightarrow> dropWhile (\<lambda>c. c \<noteq> CHR ''.'') w = []"
  "CHR ''.'' \<notin> set w \<Longrightarrow> dropWhile (\<lambda>c. c \<noteq> CHR ''.'') (w @ ''.'') = ''.''"
  by (induction w) auto

lemma dotsRegex_test_iff:
  "dotsRegex_test s \<longleftrightarrow> (\<exists>w. w \<noteq> [] \<and> CHR ''.'' \<notin> set w \<and> (s = w \<or> s = w @ ''.''))"
proof
  let ?w = "takeWhile (\<lambda>c. c \<noteq> CHR ''.'') s"
  let ?r = "dropWhile (\<lambda>c. c \<noteq> CHR ''.'') s"
  assume "dotsRegex_test s"
  then have w: "?w \<noteq> []" and r: "?r = [] \<or> ?r = ''.''"
    by (simp_all add: dotsRegex_test_def Let_def)
  have nd: "CHR ''.'' \<notin> set ?w"
    by (auto dest: set_takeWhileD)
  have "s = ?w @ ?r"
    by simp
  with r have "s = ?w \<or> s = ?w @ ''.''"
    by (metis append_Nil2)
  with w nd show "\<exists>w. w \<noteq> [] \<and> CHR ''.'' \<notin> set w \<and> (s = w \<or> s = w @ ''.'')"
    by blast
next
  assume "\<exists>w. w \<noteq> [] \<and> CHR ''.'' \<notin> set w \<and> (s = w \<or> s = w @ ''.'')"
  then obtain w where w: "w \<noteq> []" "CHR ''.'' \<notin> set w" and s: "s = w \<or> s = w @ ''.''"
    by auto
  from s show "dotsRegex_test s"
  proof
    assume "s = w"
    then show ?thesis
      unfolding dotsRegex_test_def Let_def
      using w by (simp add: takeWhile_nodot dropWhile_nodot
          del: takeWhile_eq_all_conv dropWhile_eq_Nil_conv)
  next
    assume "s = w @ ''.''"
    then show ?thesis
      unfolding dotsRegex_test_def Let_def
      using w by (simp add: takeWhile_nodot dropWhile_nodot
          del: takeWhile_eq_all_conv dropWhile_eq_Nil_conv)
  qed
qed

text \<open>On a string of two or more characters: no dot anywhere but in the last place.\<close>

lemma dots_butlast:
  assumes "2 \<le> length s"
  shows "dotsRegex_test s \<longleftrightarrow> CHR ''.'' \<notin> set (butlast s)"
proof
  assume "dotsRegex_test s"
  then obtain w where w: "w \<noteq> []" "CHR ''.'' \<notin> set w" and s: "s = w \<or> s = w @ ''.''"
    unfolding dotsRegex_test_iff by blast
  from s show "CHR ''.'' \<notin> set (butlast s)"
  proof
    assume "s = w"
    with w show ?thesis by (auto dest: in_set_butlastD)
  next
    assume "s = w @ ''.''"
    with w show ?thesis by simp
  qed
next
  assume nd: "CHR ''.'' \<notin> set (butlast s)"
  from assms have ne: "s \<noteq> []" and bne: "butlast s \<noteq> []"
    by (auto simp: butlast_conv_take)
  have split: "s = butlast s @ [last s]"
    using ne by simp
  show "dotsRegex_test s"
  proof (cases "last s = CHR ''.''")
    case True
    with split have "s = butlast s @ ''.''" by simp
    with nd bne show ?thesis unfolding dotsRegex_test_iff by blast
  next
    case False
    with nd split have "CHR ''.'' \<notin> set s"
      by (metis Un_iff empty_iff empty_set set_ConsD set_append)
    with ne show ?thesis unfolding dotsRegex_test_iff by blast
  qed
qed

lemma has_dotdot_iff: "has_dotdot s \<longleftrightarrow> (\<exists>x y. s = x @ ''..'' @ y)"
proof (induction s rule: has_dotdot.induct)
  case 1
  show ?case by simp
next
  case (2 v)
  have "[v] \<noteq> x @ ''..'' @ y" for x y
  proof
    assume "[v] = x @ ''..'' @ y"
    then have "length [v] = length (x @ ''..'' @ y)" by (rule arg_cong)
    then show False by simp
  qed
  then show ?case by simp
next
  case (3 a b cs)
  show ?case
  proof
    assume "has_dotdot (a # b # cs)"
    then consider "a = CHR ''.'' \<and> b = CHR ''.''" | "has_dotdot (b # cs)"
      by auto
    then show "\<exists>x y. a # b # cs = x @ ''..'' @ y"
    proof cases
      case 1
      then have "a # b # cs = [] @ ''..'' @ cs" by simp
      then show ?thesis by blast
    next
      case 2
      with "3.IH" obtain x y where "b # cs = x @ ''..'' @ y" by blast
      then have "a # b # cs = (a # x) @ ''..'' @ y" by simp
      then show ?thesis by blast
    qed
  next
    assume "\<exists>x y. a # b # cs = x @ ''..'' @ y"
    then obtain x y where e: "a # b # cs = x @ ''..'' @ y" by blast
    show "has_dotdot (a # b # cs)"
    proof (cases x)
      case Nil
      with e show ?thesis by simp
    next
      case (Cons h t)
      with e have "b # cs = t @ ''..'' @ y" by simp
      then have "\<exists>x y. b # cs = x @ ''..'' @ y" by blast
      with "3.IH" have "has_dotdot (b # cs)" by simp
      then show ?thesis by simp
    qed
  qed
qed

lemma no_dotdot_butlast: "CHR ''.'' \<notin> set (butlast s) \<Longrightarrow> \<not> has_dotdot s"
  unfolding has_dotdot_iff by (auto simp: butlast_append)

text \<open>
  What the code accepts for a local account: the rule of the specification, and in
  addition no dot except in the last place.
\<close>

lemma validateUsername_iff:
  assumes "provider u = Some ''local''"
  shows "validateUsername u s \<longleftrightarrow> spec_validUsername s \<and> CHR ''.'' \<notin> set (butlast s)"
proof (cases "3 \<le> length s")
  case True
  then have "2 \<le> length s" by simp
  from dots_butlast[OF this] no_dotdot_butlast[of s] assms True show ?thesis
    by (auto simp: validateUsername_def spec_validUsername_def usernameRegex_test_def indexOf_neg)
next
  case False
  with assms show ?thesis
    by (simp add: validateUsername_def spec_validUsername_def usernameRegex_test_def)
qed

lemma usernameChar_simps:
  "usernameChar CHR ''a''" "usernameChar CHR ''b''" "usernameChar CHR ''.''"
  by (simp_all add: usernameChar_def in_range_def)

text \<open>
  C1. For a local account, \<open>validateUsername\<close> should accept exactly the names of
  length 3 to 32 over \<open>[a-z0-9._-]\<close> that are not reserved and contain no \<open>..\<close>;
  so \<open>a.b\<close> should pass, and \<open>ab\<close>, \<open>a..b\<close> and \<open>admin\<close> should fail. The code
  rejects the three, and it rejects \<open>a.b\<close> as well, although \<open>a.b\<close> meets every
  condition of the rule.
\<close>

theorem validateUsername_rejects_single_dot:
  "provider u = Some ''local'' \<Longrightarrow>
   spec_validUsername ''a.b'' \<and> \<not> validateUsername u ''a.b'' \<and>
   \<not> validateUsername u ''ab'' \<and> \<not> validateUsername u ''a..b'' \<and>
   \<not> validateUsername u ''admin''"
  by (simp add: validateUsername_def spec_validUsername_def usernameRegex_test_def
      dotsRegex_test_def illegalUsernames_def usernameChar_simps)

theorem validateUsername_rejects_single_dot_witness:
  "provider (new_user\<lparr>provider := Some ''local''\<rparr>) = Some ''local'' \<and>
   spec_validUsername ''a.b'' \<and>
   \<not> validateUsername (new_user\<lparr>provider := Some ''local''\<rparr>) ''a.b''"
  using validateUsername_rejects_single_dot[of "new_user\<lparr>provider := Some ''local''\<rparr>"]
  by simp

text \<open>
  C5. \<open>validateLocalStrategyProperty\<close> passes exactly when the account is not local
  and \<open>updated\<close> is unset, or the value is not empty; it is the validator of
  \<open>firstName\<close>, \<open>lastName\<close> and \<open>email\<close>. (The leniency is for the record that
  has not been updated yet, not for the one that has.)
\<close>

theorem validateLocalStrategyProperty_iff:
  "(validateLocalStrategyProperty u v \<longleftrightarrow>
      (provider u \<noteq> Some ''local'' \<and> updated u = None) \<or> v \<noteq> []) \<and>
   schema_validate FirstName = validateLocalStrategyProperty \<and>
   schema_validate LastName = validateLocalStrategyProperty \<and>
   schema_validate Email = validateLocalStrategyProperty"
  by (simp add: validateLocalStrategyProperty_def)

theorem validateLocalStrategyProperty_iff_witness:
  "validateLocalStrategyProperty (new_user\<lparr>provider := Some ''facebook''\<rparr>) [] \<and>
   \<not> validateLocalStrategyProperty (new_user\<lparr>provider := Some ''facebook'', updated := Some 1\<rparr>) [] \<and>
   \<not> validateLocalStrategyProperty (new_user\<lparr>provider := Some ''local''\<rparr>) [] \<and>
   validateLocalStrategyProperty (new_user\<lparr>provider := Some ''local''\<rparr>) ''Ann''"
  using validateLocalStrategyProperty_iff[of "new_user\<lparr>provider := Some ''facebook''\<rparr>" "[]"]
    validateLocalStrategyProperty_iff[of "new_user\<lparr>provider := Some ''facebook'', updated := Some 1\<rparr>" "[]"]
    validateLocalStrategyProperty_iff[of "new_user\<lparr>provider := Some ''local''\<rparr>" "[]"]
    validateLocalStrategyProperty_iff[of "new_user\<lparr>provider := Some ''local''\<rparr>" "''Ann''"]
  by (simp add: new_user_def)

text \<open>
  The condition with the leniency tied to \<open>updated\<close> being set does not
  describe the validator: on a new account of another provider with an empty value the
  validator passes, and that condition does not hold.
\<close>

theorem validateLocalStrategyProperty_counterexample:
  "\<not> (validateLocalStrategyProperty (new_user\<lparr>provider := Some ''facebook''\<rparr>) [] \<longleftrightarrow>
        (provider (new_user\<lparr>provider := Some ''facebook''\<rparr>) \<noteq> Some ''local'' \<and>
         updated (new_user\<lparr>provider := Some ''facebook''\<rparr>) \<noteq> None) \<or>
        ([] :: string) \<noteq> [])"
  by (simp add: validateLocalStrategyProperty_def new_user_def)

text \<open>
  C6. On an account that is not local, empty \<open>firstName\<close>, \<open>lastName\<close> and
  \<open>email\<close> pass \<open>validateLocalStrategyProperty\<close> while \<open>updated\<close> is unset, and
  fail once \<open>updated\<close> is set.
\<close>

theorem nonlocal_empty_fields:
  "provider u \<noteq> Some ''local'' \<Longrightarrow>
   (updated u = None \<longrightarrow>
      validateLocalStrategyProperty u [] \<and> schema_validate FirstName u [] \<and>
      schema_validate LastName u [] \<and> schema_validate Email u []) \<and>
   (updated u \<noteq> None \<longrightarrow>
      \<not> validateLocalStrategyProperty u [] \<and> \<not> schema_validate FirstName u [] \<and>
      \<not> schema_validate LastName u [] \<and> \<not> schema_validate Email u [])"
  by (simp add: validateLocalStrategyProperty_def)

theorem nonlocal_empty_fields_witness:
  "schema_validate FirstName (new_user\<lparr>provider := Some ''facebook''\<rparr>) [] \<and>
   schema_validate LastName (new_user\<lparr>provider := Some ''facebook''\<rparr>) [] \<and>
   schema_validate Email (new_user\<lparr>provider := Some ''facebook''\<rparr>) [] \<and>
   \<not> schema_validate FirstName (new_user\<lparr>provider := Some ''facebook'', updated := Some 1\<rparr>) [] \<and>
   \<not> schema_validate LastName (new_user\<lparr>provider := Some ''facebook'', updated := Some 1\<rparr>) [] \<and>
   \<not> schema_validate Email (new_user\<lparr>provider := Some ''facebook'', updated := Some 1\<rparr>) []"
  using nonlocal_empty_fields[of "new_user\<lparr>provider := Some ''facebook''\<rparr>"]
    nonlocal_empty_fields[of "new_user\<lparr>provider := Some ''facebook'', updated := Some 1\<rparr>"]
  by (simp add: new_user_def)

section \<open>The pre-save hook, hashing and authentication\<close>

text \<open>
  In the theorems below \<open>rnd\<close> is what \<open>crypto.randomBytes(16)\<close> returned: sixteen
  bytes, so never the empty string.
\<close>

lemma pre_save_long:
  "6 < length (password u) \<Longrightarrow> rnd \<noteq> [] \<Longrightarrow>
   salt (pre_save c rnd u) = Some rnd \<and>
   password (pre_save c rnd u) = base64 c (pbkdf2Sync c (password u) rnd 10000 64)"
  by (auto simp: pre_save_def hashPassword_def Let_def)

lemma pre_save_short:
  "length (password u) \<le> 6 \<Longrightarrow>
   salt (pre_save c rnd u) = salt u \<and> password (pre_save c rnd u) = password u"
  by (auto simp: pre_save_def Let_def)

text \<open>
  C3. When the password field is longer than 6 characters, the pre-save hook sets the
  salt to the freshly drawn bytes, whatever the salt was, and replaces the password by
  the key derived from it with that salt (10000 iterations, 64 bytes, in base64). When
  the password is empty or at most 6 characters long, the hook leaves password and
  salt as they are.
\<close>

theorem pre_save_hashing:
  "(6 < length (password u) \<and> rnd \<noteq> [] \<longrightarrow>
      salt (pre_save c rnd u) = Some rnd \<and>
      password (pre_save c rnd u) = base64 c (pbkdf2Sync c (password u) rnd 10000 64)) \<and>
   (length (password u) \<le> 6 \<longrightarrow>
      salt (pre_save c rnd u) = salt u \<and> password (pre_save c rnd u) = password u)"
  using pre_save_long[of u rnd c] pre_save_short[of u c rnd] by blast

theorem pre_save_hashing_witness:
  "salt (pre_save stub_crypto ''0123456789abcdef''
      (new_user\<lparr>password := ''correcthorsebattery'', salt := Some ''old salt''\<rparr>)) =
     Some ''0123456789abcdef'' \<and>
   password (pre_save stub_crypto ''0123456789abcdef''
      (new_user\<lparr>password := ''correcthorsebattery'', salt := Some ''old salt''\<rparr>)) =
     ''b64:key(correcthorsebattery,0123456789abcdef)'' \<and>
   salt (pre_save stub_crypto ''0123456789abcdef''
      (new_user\<lparr>password := ''secret'', salt := Some ''old salt''\<rparr>)) = Some ''old salt'' \<and>
   password (pre_save stub_crypto ''0123456789abcdef''
      (new_user\<lparr>password := ''secret'', salt := Some ''old salt''\<rparr>)) = ''secret'' \<and>
   salt (pre_save stub_crypto ''0123456789abcdef'' new_user) = None \<and>
   password (pre_save stub_crypto ''0123456789abcdef'' new_user) = []"
  using
    pre_save_hashing[of "new_user\<lparr>password := ''correcthorsebattery'', salt := Some ''old salt''\<rparr>"
      "''0123456789abcdef''" stub_crypto]
    pre_save_hashing[of "new_user\<lparr>password := ''secret'', salt := Some ''old salt''\<rparr>"
      "''0123456789abcdef''" stub_crypto]
    pre_save_hashing[of new_user "''0123456789abcdef''" stub_crypto]
  by (simp add: new_user_def stub_crypto_def)

text \<open>
  C7. Round trip: after the pre-save hook has run on a record whose password field is
  a raw password longer than 6 characters, \<open>authenticate\<close> with the same raw password
  returns true. Key derivation is a function of password and salt, which is all the
  proof uses of it.
\<close>

theorem authenticate_after_save:
  "6 < length (password u) \<Longrightarrow> rnd \<noteq> [] \<Longrightarrow>
   authenticate c (pre_save c rnd u) (password u)"
  by (auto simp: authenticate_def pre_save_def hashPassword_def Let_def)

theorem authenticate_after_save_witness:
  "6 < length (password (new_user\<lparr>password := ''correcthorsebattery''\<rparr>)) \<and>
   authenticate stub_crypto
     (pre_save stub_crypto ''0123456789abcdef'' (new_user\<lparr>password := ''correcthorsebattery''\<rparr>))
     ''correcthorsebattery''"
  using authenticate_after_save[of "new_user\<lparr>password := ''correcthorsebattery''\<rparr>"
      "''0123456789abcdef''" stub_crypto]
  by simp

text \<open>
  C10. On a record without a salt, and for the empty candidate whatever the salt,
  \<open>hashPassword\<close> returns the candidate unchanged, so \<open>authenticate\<close> compares the
  stored password field with the raw candidate; on a record with no salt and an empty
  password field, \<open>authenticate\<close> of the empty string returns true.
\<close>

theorem hashPassword_passthrough:
  "(salt u = None \<or> cand = [] \<longrightarrow>
      hashPassword c u cand = cand \<and> authenticate c u cand = (password u = cand)) \<and>
   (salt u = None \<and> password u = [] \<longrightarrow> authenticate c u [])"
  by (auto simp: hashPassword_def authenticate_def split: option.splits)

theorem hashPassword_passthrough_witness:
  "hashPassword stub_crypto new_user ''hunter2'' = ''hunter2'' \<and>
   authenticate stub_crypto (new_user\<lparr>password := ''hunter2''\<rparr>) ''hunter2'' \<and>
   \<not> authenticate stub_crypto (new_user\<lparr>password := ''hunter2''\<rparr>) ''hunter3'' \<and>
   hashPassword stub_crypto (new_user\<lparr>salt := Some ''0123456789abcdef''\<rparr>) [] = [] \<and>
   authenticate stub_crypto new_user []"
  using hashPassword_passthrough[of new_user "''hunter2''" stub_crypto]
    hashPassword_passthrough[of "new_user\<lparr>password := ''hunter2''\<rparr>" "''hunter2''" stub_crypto]
    hashPassword_passthrough[of "new_user\<lparr>password := ''hunter2''\<rparr>" "''hunter3''" stub_crypto]
    hashPassword_passthrough[of "new_user\<lparr>salt := Some ''0123456789abcdef''\<rparr>" "[]" stub_crypto]
    hashPassword_passthrough[of new_user "[]" stub_crypto]
  by (simp add: new_user_def)

subsection \<open>The email fingerprint\<close>

lemma isWhiteSpace_lower: "isWhiteSpace (lower_char c) = isWhiteSpace c"
proof (cases "map_of (zip ''ABCDEFGHIJKLMNOPQRSTUVWXYZ'' ''abcdefghijklmnopqrstuvwxyz'') c")
  case None
  then show ?thesis by (simp add: lower_char_def)
next
  case (Some l)
  then have "(c, l) \<in> set (zip ''ABCDEFGHIJKLMNOPQRSTUVWXYZ'' ''abcdefghijklmnopqrstuvwxyz'')"
    by (rule map_of_SomeD)
  then have "\<not> isWhiteSpace c \<and> \<not> isWhiteSpace l"
    by (auto simp: isWhiteSpace_def)
  with Some show ?thesis by (simp add: lower_char_def)
qed

text \<open>Trimming and lower-casing commute, so their order does not matter.\<close>

lemma toLowerCase_trim: "toLowerCase (trim s) = trim (toLowerCase s)"
  by (simp add: toLowerCase_def trim_def rev_map dropWhile_map comp_def isWhiteSpace_lower)

lemma normalised_example:
  "toLowerCase (trim ''User@Example.com '') = ''user@example.com''"
  "toLowerCase (trim ''user@example.com'') = ''user@example.com''"
  by (simp_all add: toLowerCase_def trim_def isWhiteSpace_def lower_char_def)

text \<open>
  C8. Every run of the pre-save hook sets \<open>emailHash\<close> to the hex MD5 digest of the
  trimmed, lower-cased email; the value \<open>emailHash\<close> had before has no influence;
  and records whose emails are \<open>User@Example.com\<close> followed by a space and
  \<open>user@example.com\<close> get the same \<open>emailHash\<close>.
\<close>

theorem pre_save_emailHash:
  "emailHash (pre_save c rnd u) = Some (md5_hex c (toLowerCase (trim (email u)))) \<and>
   emailHash (pre_save c rnd (u\<lparr>emailHash := h\<rparr>)) = emailHash (pre_save c rnd u) \<and>
   emailHash (pre_save c rnd (u\<lparr>email := ''User@Example.com ''\<rparr>)) =
     emailHash (pre_save c rnd' (u'\<lparr>email := ''user@example.com''\<rparr>))"
  by (simp add: pre_save_def Let_def normalised_example)

theorem pre_save_emailHash_witness:
  "emailHash (pre_save stub_crypto ''0123456789abcdef''
      (new_user\<lparr>email := ''User@Example.com '', emailHash := Some ''supplied''\<rparr>)) =
     Some ''md5:user@example.com'' \<and>
   emailHash (pre_save stub_crypto ''fedcba9876543210''
      (new_user\<lparr>email := ''user@example.com'', password := ''correcthorsebattery''\<rparr>)) =
     Some ''md5:user@example.com''"
  using
    pre_save_emailHash[of stub_crypto "''0123456789abcdef''"
      "new_user\<lparr>email := ''User@Example.com '', emailHash := Some ''supplied''\<rparr>"]
    pre_save_emailHash[of stub_crypto "''fedcba9876543210''"
      "new_user\<lparr>email := ''user@example.com'', password := ''correcthorsebattery''\<rparr>"]
  by (simp add: normalised_example stub_crypto_def)

subsection \<open>The email expression\<close>

lemma dot_part_iff: "dot_part s \<longleftrightarrow> (\<exists>c r. s = CHR ''.'' # c # r \<and> anyChar c)"
  by (cases s rule: dot_part.cases) auto

lemma domain_part_iff:
  "domain_part s \<longleftrightarrow>
   (\<exists>y c r. y \<noteq> [] \<and> list_all anyChar y \<and> anyChar c \<and> s = y @ CHR ''.'' # c # r)"
proof (induction s)
  case Nil
  then show ?case by simp
next
  case (Cons a s)
  show ?case
  proof
    assume "domain_part (a # s)"
    then have a: "anyChar a" and d: "dot_part s \<or> domain_part s" by auto
    from d show "\<exists>y c r. y \<noteq> [] \<and> list_all anyChar y \<and> anyChar c \<and> a # s = y @ CHR ''.'' # c # r"
    proof
      assume "dot_part s"
      then obtain c r where "s = CHR ''.'' # c # r" "anyChar c" unfolding dot_part_iff by blast
      with a have "[a] \<noteq> [] \<and> list_all anyChar [a] \<and> anyChar c \<and> a # s = [a] @ CHR ''.'' # c # r"
        by simp
      then show ?thesis by blast
    next
      assume "domain_part s"
      with Cons.IH obtain y c r where "y \<noteq> []" "list_all anyChar y" "anyChar c" "s = y @ CHR ''.'' # c # r"
        by blast
      with a have "a # y \<noteq> [] \<and> list_all anyChar (a # y) \<and> anyChar c \<and> a # s = (a # y) @ CHR ''.'' # c # r"
        by simp
      then show ?thesis by blast
    qed
  next
    assume "\<exists>y c r. y \<noteq> [] \<and> list_all anyChar y \<and> anyChar c \<and> a # s = y @ CHR ''.'' # c # r"
    then obtain y c r where y: "y \<noteq> []" "list_all anyChar y" "anyChar c" "a # s = y @ CHR ''.'' # c # r"
      by blast
    then obtain y' where y': "y = a # y'" "s = y' @ CHR ''.'' # c # r"
      by (cases y) auto
    show "domain_part (a # s)"
    proof (cases y')
      case Nil
      with y y' show ?thesis by simp
    next
      case (Cons b t)
      with y y' have "y' \<noteq> [] \<and> list_all anyChar y' \<and> anyChar c \<and> s = y' @ CHR ''.'' # c # r"
        by simp
      then have "domain_part s" unfolding Cons.IH by blast
      with y y' show ?thesis by simp
    qed
  qed
qed

lemma at_part_iff: "at_part s \<longleftrightarrow> (\<exists>t. s = CHR ''@'' # t \<and> domain_part t)"
  by (cases s) auto

lemma local_part_iff:
  "local_part s \<longleftrightarrow> (\<exists>x t. x \<noteq> [] \<and> list_all anyChar x \<and> s = x @ t \<and> at_part t)"
proof (induction s)
  case Nil
  then show ?case by simp
next
  case (Cons a s)
  show ?case
  proof
    assume "local_part (a # s)"
    then have a: "anyChar a" and d: "at_part s \<or> local_part s" by auto
    from d show "\<exists>x t. x \<noteq> [] \<and> list_all anyChar x \<and> a # s = x @ t \<and> at_part t"
    proof
      assume "at_part s"
      with a have "[a] \<noteq> [] \<and> list_all anyChar [a] \<and> a # s = [a] @ s \<and> at_part s" by simp
      then show ?thesis by blast
    next
      assume "local_part s"
      with Cons.IH obtain x t where "x \<noteq> []" "list_all anyChar x" "s = x @ t" "at_part t" by blast
      with a have "a # x \<noteq> [] \<and> list_all anyChar (a # x) \<and> a # s = (a # x) @ t \<and> at_part t"
        by simp
      then show ?thesis by blast
    qed
  next
    assume "\<exists>x t. x \<noteq> [] \<and> list_all anyChar x \<and> a # s = x @ t \<and> at_part t"
    then obtain x t where x: "x \<noteq> []" "list_all anyChar x" "a # s = x @ t" "at_part t" by blast
    then obtain x' where x': "x = a # x'" "s = x' @ t" by (cases x) auto
    show "local_part (a # s)"
    proof (cases x')
      case Nil
      with x x' show ?thesis by simp
    next
      case (Cons b u)
      with x x' have "x' \<noteq> [] \<and> list_all anyChar x' \<and> s = x' @ t \<and> at_part t" by simp
      then have "local_part s" unfolding Cons.IH by blast
      with x x' show ?thesis by simp
    qed
  qed
qed

lemma emailRegex_search: "emailRegex_test s \<longleftrightarrow> (\<exists>p t. s = p @ t \<and> local_part t)"
proof (induction s)
  case Nil
  then show ?case by simp
next
  case (Cons a s)
  show ?case
  proof
    assume "emailRegex_test (a # s)"
    then consider "local_part (a # s)" | "emailRegex_test s" by auto
    then show "\<exists>p t. a # s = p @ t \<and> local_part t"
    proof cases
      case 1
      then have "a # s = [] @ (a # s) \<and> local_part (a # s)" by simp
      then show ?thesis by blast
    next
      case 2
      with Cons.IH obtain p t where "s = p @ t" "local_part t" by blast
      then have "a # s = (a # p) @ t \<and> local_part t" by simp
      then show ?thesis by blast
    qed
  next
    assume "\<exists>p t. a # s = p @ t \<and> local_part t"
    then obtain p t where pt: "a # s = p @ t" "local_part t" by blast
    show "emailRegex_test (a # s)"
    proof (cases p)
      case Nil
      with pt have "local_part (a # s)" by simp
      then show ?thesis by simp
    next
      case (Cons b q)
      with pt have "s = q @ t \<and> local_part t" by simp
      then have "emailRegex_test s" unfolding Cons.IH by blast
      then show ?thesis by simp
    qed
  qed
qed

text \<open>
  \<open>emailRegex_test\<close> decides the language of the regular expression: some text, one
  or more characters, an \<open>@\<close>, one or more characters, a dot, one more character,
  and some text.
\<close>

lemma emailRegex_test_iff:
  "emailRegex_test s \<longleftrightarrow>
   (\<exists>p x y c r. x \<noteq> [] \<and> list_all anyChar x \<and> y \<noteq> [] \<and> list_all anyChar y \<and> anyChar c \<and>
      s = p @ x @ CHR ''@'' # y @ CHR ''.'' # c # r)"
  unfolding emailRegex_search local_part_iff at_part_iff domain_part_iff
  by (auto; blast)

subsection \<open>Salt and hash over the life of a record\<close>

lemma run_snoc: "run c u (acts @ [a]) = apply_action c (run c u acts) a"
  by (simp add: run_def)

lemma pre_save_no_salt:
  "salt (pre_save c rnd u) = None \<Longrightarrow>
   salt u = None \<and> password (pre_save c rnd u) = password u"
  by (auto simp: pre_save_def Let_def split: if_splits)

lemma pre_save_keeps_salt: "salt u \<noteq> None \<Longrightarrow> salt (pre_save c rnd u) \<noteq> None"
  by (auto simp: pre_save_def Let_def)

text \<open>
  Without an assignment to \<open>salt\<close>, a record that has no salt has never been hashed:
  its password field holds the value last assigned to it, or the default when none
  was.
\<close>

lemma run_raw_without_salt:
  "\<forall>v. Set_salt v \<notin> set acts \<Longrightarrow> salt (run c new_user acts) = None \<Longrightarrow>
   salt (run c new_user acts) = None \<and>
   password (run c new_user acts) = last ([] # [p. Set_password p \<leftarrow> acts])"
proof (induction acts rule: rev_induct)
  case Nil
  then show ?case by (simp add: run_def new_user_def)
next
  case (snoc a acts)
  let ?u = "run c new_user acts"
  from snoc.prems(1) have nos: "\<forall>v. Set_salt v \<notin> set acts" and a: "\<forall>v. a \<noteq> Set_salt v"
    by auto
  show ?case
  proof (cases a)
    case (Set_password p)
    with snoc.prems(2) show ?thesis by (simp add: run_snoc)
  next
    case (Save rnd)
    show ?thesis
    proof (cases "validate ?u")
      case True
      with snoc.prems(2) Save have "salt (pre_save c rnd ?u) = None"
        by (simp add: run_snoc)
      then have "salt ?u = None" and "password (pre_save c rnd ?u) = password ?u"
        by (auto dest: pre_save_no_salt)
      with snoc.IH[OF nos] Save True snoc.prems(2) show ?thesis
        by (simp add: run_snoc)
    next
      case False
      with snoc.prems(2) Save have "salt ?u = None" by (simp add: run_snoc)
      with snoc.IH[OF nos] Save False show ?thesis by (simp add: run_snoc)
    qed
  next
    case (Set_salt v)
    with a show ?thesis by simp
  next
    case (Set_firstName v)
    with snoc.prems(2) have "salt ?u = None" by (simp add: run_snoc)
    with snoc.IH[OF nos] Set_firstName show ?thesis by (simp add: run_snoc)
  next
    case (Set_lastName v)
    with snoc.prems(2) have "salt ?u = None" by (simp add: run_snoc)
    with snoc.IH[OF nos] Set_lastName show ?thesis by (simp add: run_snoc)
  next
    case (Set_email v)
    with snoc.prems(2) have "salt ?u = None" by (simp add: run_snoc)
    with snoc.IH[OF nos] Set_email show ?thesis by (simp add: run_snoc)
  next
    case (Set_username v)
    with snoc.prems(2) have "salt ?u = None" by (simp add: run_snoc)
    with snoc.IH[OF nos] Set_username show ?thesis by (simp add: run_snoc)
  next
    case (Set_emailHash v)
    with snoc.prems(2) have "salt ?u = None" by (simp add: run_snoc)
    with snoc.IH[OF nos] Set_emailHash show ?thesis by (simp add: run_snoc)
  next
    case (Set_provider v)
    with snoc.prems(2) have "salt ?u = None" by (simp add: run_snoc)
    with snoc.IH[OF nos] Set_provider show ?thesis by (simp add: run_snoc)
  next
    case (Set_updated d)
    with snoc.prems(2) have "salt ?u = None" by (simp add: run_snoc)
    with snoc.IH[OF nos] Set_updated show ?thesis by (simp add: run_snoc)
  qed
qed

lemma apply_action_keeps_salt:
  "\<forall>v. a \<noteq> Set_salt v \<Longrightarrow> salt u \<noteq> None \<Longrightarrow> salt (apply_action c u a) \<noteq> None"
  by (cases a) (auto simp: pre_save_def Let_def)

lemma run_keeps_salt:
  "\<forall>v. Set_salt v \<notin> set acts \<Longrightarrow> salt u \<noteq> None \<Longrightarrow> salt (run c u acts) \<noteq> None"
proof (induction acts rule: rev_induct)
  case Nil
  then show ?case by (simp add: run_def)
next
  case (snoc a acts)
  from snoc.prems(1) have "\<forall>v. Set_salt v \<notin> set acts" and a: "\<forall>v. a \<noteq> Set_salt v"
    by auto
  with snoc.IH snoc.prems(2) have "salt (run c u acts) \<noteq> None" by blast
  with a show ?case unfolding run_snoc by (rule apply_action_keeps_salt)
qed

text \<open>
  C4, as the code has it. For the records reachable from a new one by field updates
  and saves:
  \<^item> A new record has no salt and an empty password.
  \<^item> A save that passes validation, on a record whose password field is longer
    than 6 characters, leaves the record with the salt drawn at that save and with
    the password field holding the key derived from the former password with that
    salt. A save that passes validation with a password of at most 6 characters
    leaves salt and password as they are. A save that fails validation leaves the
    record as it is.
  \<^item> In a sequence that does not assign \<open>salt\<close>: as long as the record has no
    salt, its password field holds the raw value last assigned to it, or the empty
    default when none was; so no hash is stored without a salt.
  \<^item> In a sequence that does not assign \<open>salt\<close>: a salt, once present, stays.
  The salt is not tied to the password the record holds now: nothing removes it when
  the password field is next assigned a raw value.
\<close>

theorem salt_and_hash_lifecycle:
  "salt new_user = None \<and> password new_user = [] \<and>
   (validate u \<and> 6 < length (password u) \<and> rnd \<noteq> [] \<longrightarrow>
      salt (apply_action c u (Save rnd)) = Some rnd \<and>
      password (apply_action c u (Save rnd)) =
        base64 c (pbkdf2Sync c (password u) rnd 10000 64)) \<and>
   (validate u \<and> length (password u) \<le> 6 \<longrightarrow>
      salt (apply_action c u (Save rnd)) = salt u \<and>
      password (apply_action c u (Save rnd)) = password u) \<and>
   (\<not> validate u \<longrightarrow> apply_action c u (Save rnd) = u) \<and>
   ((\<forall>v. Set_salt v \<notin> set acts) \<and> salt (run c new_user acts) = None \<longrightarrow>
      password (run c new_user acts) = last ([] # [p. Set_password p \<leftarrow> acts])) \<and>
   ((\<forall>v. Set_salt v \<notin> set acts') \<and> salt u \<noteq> None \<longrightarrow>
      salt (run c u acts') \<noteq> None)"
proof (intro conjI impI)
  show "salt new_user = None" "password new_user = []"
    by (simp_all add: new_user_def)
  show "salt (apply_action c u (Save rnd)) = Some rnd"
    if "validate u \<and> 6 < length (password u) \<and> rnd \<noteq> []"
    using that pre_save_long[of u rnd c] by simp
  show "password (apply_action c u (Save rnd)) = base64 c (pbkdf2Sync c (password u) rnd 10000 64)"
    if "validate u \<and> 6 < length (password u) \<and> rnd \<noteq> []"
    using that pre_save_long[of u rnd c] by simp
  show "salt (apply_action c u (Save rnd)) = salt u"
    if "validate u \<and> length (password u) \<le> 6"
    using that pre_save_short[of u c rnd] by simp
  show "password (apply_action c u (Save rnd)) = password u"
    if "validate u \<and> length (password u) \<le> 6"
    using that pre_save_short[of u c rnd] by simp
  show "apply_action c u (Save rnd) = u" if "\<not> validate u"
    using that by simp
  show "password (run c new_user acts) = last ([] # [p. Set_password p \<leftarrow> acts])"
    if "(\<forall>v. Set_salt v \<notin> set acts) \<and> salt (run c new_user acts) = None"
    using that run_raw_without_salt[of acts c] by blast
  show "salt (run c u acts') \<noteq> None"
    if "(\<forall>v. Set_salt v \<notin> set acts') \<and> salt u \<noteq> None"
    using that run_keeps_salt[of acts' u c] by blast
qed

lemma validate_examples:
  "validate (new_user\<lparr>provider := Some ''facebook'', username := Some ''alice'',
      password := ''correcthorsebattery''\<rparr>)"
  "validate (new_user\<lparr>provider := Some ''facebook'', username := Some ''alice'',
      password := ''abc''\<rparr>)"
  "\<not> validate (new_user\<lparr>provider := Some ''local'', username := Some ''alice'',
      password := ''correct''\<rparr>)"
  by (simp_all add: validate_def new_user_def validateLocalStrategyProperty_def
      validateUsername_def validateLocalStrategyPassword_def checkRequired_def)

theorem salt_and_hash_lifecycle_witness:
  "salt (apply_action stub_crypto
      (new_user\<lparr>provider := Some ''facebook'', username := Some ''alice'',
         password := ''correcthorsebattery''\<rparr>) (Save ''0123456789abcdef'')) =
     Some ''0123456789abcdef'' \<and>
   password (apply_action stub_crypto
      (new_user\<lparr>provider := Some ''facebook'', username := Some ''alice'',
         password := ''correcthorsebattery''\<rparr>) (Save ''0123456789abcdef'')) =
     ''b64:key(correcthorsebattery,0123456789abcdef)'' \<and>
   salt (apply_action stub_crypto
      (new_user\<lparr>provider := Some ''facebook'', username := Some ''alice'',
         password := ''abc''\<rparr>) (Save ''0123456789abcdef'')) = None \<and>
   password (apply_action stub_crypto
      (new_user\<lparr>provider := Some ''facebook'', username := Some ''alice'',
         password := ''abc''\<rparr>) (Save ''0123456789abcdef'')) = ''abc'' \<and>
   apply_action stub_crypto
      (new_user\<lparr>provider := Some ''local'', username := Some ''alice'',
         password := ''correct''\<rparr>) (Save ''0123456789abcdef'') =
     new_user\<lparr>provider := Some ''local'', username := Some ''alice'', password := ''correct''\<rparr> \<and>
   salt (run stub_crypto new_user
      [Set_provider (Some ''facebook''), Set_username (Some ''alice''), Set_password ''abc'',
       Save ''0123456789abcdef'', Set_password ''abcd'', Save ''fedcba9876543210'']) = None \<and>
   password (run stub_crypto new_user
      [Set_provider (Some ''facebook''), Set_username (Some ''alice''), Set_password ''abc'',
       Save ''0123456789abcdef'', Set_password ''abcd'', Save ''fedcba9876543210'']) = ''abcd'' \<and>
   salt (run stub_crypto (new_user\<lparr>salt := Some ''0123456789abcdef''\<rparr>)
      [Set_password ''abc'', Save ''fedcba9876543210'']) \<noteq> None"
proof -
  let ?acts = "[Set_provider (Some ''facebook''), Set_username (Some ''alice''), Set_password ''abc'',
       Save ''0123456789abcdef'', Set_password ''abcd'', Save ''fedcba9876543210'']"
  have nosalt: "salt (run stub_crypto new_user ?acts) = None"
    by (simp add: run_def new_user_def pre_save_def Let_def)
  have assigned: "last ([] # [p. Set_password p \<leftarrow> ?acts]) = ''abcd''"
    by simp
  show ?thesis
    using nosalt assigned validate_examples
      salt_and_hash_lifecycle[of
        "new_user\<lparr>provider := Some ''facebook'', username := Some ''alice'',
           password := ''correcthorsebattery''\<rparr>" "''0123456789abcdef''" stub_crypto ?acts "[]"]
      salt_and_hash_lifecycle[of
        "new_user\<lparr>provider := Some ''facebook'', username := Some ''alice'',
           password := ''abc''\<rparr>" "''0123456789abcdef''" stub_crypto "[]" "[]"]
      salt_and_hash_lifecycle[of
        "new_user\<lparr>provider := Some ''local'', username := Some ''alice'',
           password := ''correct''\<rparr>" "''0123456789abcdef''" stub_crypto "[]" "[]"]
      salt_and_hash_lifecycle[of
        "new_user\<lparr>salt := Some ''0123456789abcdef''\<rparr>" "[]" stub_crypto "[]"
        "[Set_password ''abc'', Save ''fedcba9876543210'']"]
    by (simp add: stub_crypto_def new_user_def)
qed

text \<open>
  The invariant with both halves (a salt is present exactly when the password field
  holds a derived hash) fails on reachable records. An account of another provider is
  saved with a long password, then its password is set to \<open>abc\<close> and it is saved
  again: the second save leaves the three characters as they are, beside the salt of
  the first save, and \<open>abc\<close> is not a key derived with that salt. And when, after
  the first save, \<open>salt\<close> is assigned \<open>undefined\<close>, the record holds the derived
  hash and no salt.
\<close>

lemma counterexample_run:
  "run stub_crypto new_user
     [Set_provider (Some ''facebook''), Set_username (Some ''alice''),
      Set_password ''correcthorsebattery'', Save ''0123456789abcdef'',
      Set_password ''abc'', Save ''fedcba9876543210''] =
   \<lparr> firstName = [], lastName = [], email = [], username = Some ''alice'',
     password = ''abc'', emailHash = Some ''md5:'', salt = Some ''0123456789abcdef'',
     provider = Some ''facebook'', updated = None \<rparr>"
  "run stub_crypto new_user
     [Set_provider (Some ''facebook''), Set_username (Some ''alice''),
      Set_password ''correcthorsebattery'', Save ''0123456789abcdef'', Set_salt None] =
   \<lparr> firstName = [], lastName = [], email = [], username = Some ''alice'',
     password = ''b64:key(correcthorsebattery,0123456789abcdef)'', emailHash = Some ''md5:'',
     salt = None, provider = Some ''facebook'', updated = None \<rparr>"
  by (simp_all add: run_def new_user_def pre_save_def hashPassword_def stub_crypto_def Let_def
      trim_def toLowerCase_def lower_char_def isWhiteSpace_def validate_def
      validateLocalStrategyProperty_def validateUsername_def validateLocalStrategyPassword_def
      checkRequired_def)

theorem salt_iff_hash_counterexample:
  "\<not> (salt (run stub_crypto new_user
          [Set_provider (Some ''facebook''), Set_username (Some ''alice''),
           Set_password ''correcthorsebattery'', Save ''0123456789abcdef'',
           Set_password ''abc'', Save ''fedcba9876543210'']) \<noteq> None
       \<longleftrightarrow>
       (\<exists>raw s. salt (run stub_crypto new_user
          [Set_provider (Some ''facebook''), Set_username (Some ''alice''),
           Set_password ''correcthorsebattery'', Save ''0123456789abcdef'',
           Set_password ''abc'', Save ''fedcba9876543210'']) = Some s \<and>
         password (run stub_crypto new_user
          [Set_provider (Some ''facebook''), Set_username (Some ''alice''),
           Set_password ''correcthorsebattery'', Save ''0123456789abcdef'',
           Set_password ''abc'', Save ''fedcba9876543210'']) =
           base64 stub_crypto (pbkdf2Sync stub_crypto raw s 10000 64))) \<and>
   salt (run stub_crypto new_user
      [Set_provider (Some ''facebook''), Set_username (Some ''alice''),
       Set_password ''correcthorsebattery'', Save ''0123456789abcdef'', Set_salt None]) = None \<and>
   password (run stub_crypto new_user
      [Set_provider (Some ''facebook''), Set_username (Some ''alice''),
       Set_password ''correcthorsebattery'', Save ''0123456789abcdef'', Set_salt None]) =
     base64 stub_crypto
       (pbkdf2Sync stub_crypto ''correcthorsebattery'' ''0123456789abcdef'' 10000 64)"
  by (simp add: counterexample_run) (simp add: stub_crypto_def)

section \<open>The username allocator\<close>

subsection \<open>Printing a suffix is injective\<close>

lemma digit_inj: "a < 10 \<Longrightarrow> b < 10 \<Longrightarrow> digit a = digit b \<Longrightarrow> a = b"
proof -
  assume a: "a < 10" and b: "b < 10" and e: "digit a = digit b"
  have "distinct ''0123456789''" by simp
  moreover have "a < length ''0123456789''" "b < length ''0123456789''"
    using a b by simp_all
  moreover have "''0123456789'' ! a = ''0123456789'' ! b"
    using a b e by (simp add: digit_def)
  ultimately show "a = b"
    by (simp only: nth_eq_iff_index_eq)
qed

lemma show_nat_small: "n < 10 \<Longrightarrow> show_nat n = [digit n]"
  by (subst show_nat.simps) simp

lemma show_nat_big: "10 \<le> n \<Longrightarrow> show_nat n = show_nat (n div 10) @ [digit (n mod 10)]"
  by (subst show_nat.simps) simp

lemma show_nat_nonempty: "show_nat n \<noteq> []"
  by (subst show_nat.simps) simp

lemma show_nat_length: "10 \<le> n \<Longrightarrow> 2 \<le> length (show_nat n)"
proof -
  assume "10 \<le> n"
  then have "length (show_nat n) = Suc (length (show_nat (n div 10)))"
    by (simp add: show_nat_big)
  moreover have "0 < length (show_nat (n div 10))"
    using show_nat_nonempty by blast
  ultimately show ?thesis by linarith
qed

lemma show_nat_inj: "show_nat n = show_nat m \<Longrightarrow> n = m"
proof (induction n arbitrary: m rule: show_nat.induct)
  case (1 n)
  show ?case
  proof (cases "n < 10")
    case n: True
    show ?thesis
    proof (cases "m < 10")
      case True
      with n "1.prems" show ?thesis by (simp add: digit_inj show_nat_small)
    next
      case False
      then have "2 \<le> length (show_nat m)" by (simp add: show_nat_length)
      moreover have "length (show_nat n) = 1" using n by (simp add: show_nat_small)
      ultimately show ?thesis using "1.prems" by simp
    qed
  next
    case n: False
    show ?thesis
    proof (cases "m < 10")
      case True
      then have "length (show_nat m) = 1" by (simp add: show_nat_small)
      moreover have "2 \<le> length (show_nat n)" using n by (simp add: show_nat_length)
      ultimately show ?thesis using "1.prems" by simp
    next
      case False
      have en: "show_nat n = show_nat (n div 10) @ [digit (n mod 10)]"
        using n by (simp add: show_nat_big)
      have em: "show_nat m = show_nat (m div 10) @ [digit (m mod 10)]"
        using False by (simp add: show_nat_big)
      from "1.prems" en em have a: "show_nat (n div 10) = show_nat (m div 10)"
        and b: "digit (n mod 10) = digit (m mod 10)" by simp_all
      from "1.IH"[OF n a] have "n div 10 = m div 10" .
      moreover from b have "n mod 10 = m mod 10" by (simp add: digit_inj)
      ultimately show ?thesis by (metis div_mult_mod_eq)
    qed
  qed
qed

lemma show_nat_examples:
  "show_nat 1 = ''1''" "show_nat (Suc 0) = ''1''" "show_nat 2 = ''2''" "show_nat 3 = ''3''"
  by (simp_all add: show_nat_small digit_def)

subsection \<open>One probe\<close>

lemma findUniqueUsername_free:
  "f (uname @ suffix_or_empty suffix) = Inr None \<Longrightarrow>
   findUniqueUsername f uname suffix probes =
     Some (probes @ [uname @ suffix_or_empty suffix], Some (uname @ suffix_or_empty suffix))"
  by (subst findUniqueUsername.simps) (simp add: Let_def)

lemma findUniqueUsername_taken:
  "f (uname @ suffix_or_empty suffix) = Inr (Some u) \<Longrightarrow>
   findUniqueUsername f uname suffix probes =
     findUniqueUsername f uname (Some (suffix_or_zero suffix + 1))
       (probes @ [uname @ suffix_or_empty suffix])"
  by (subst findUniqueUsername.simps) (simp add: Let_def)

subsection \<open>The run of probes\<close>

text \<open>
  From suffix \<open>s\<close> on, while the names up to \<open>n\<close> are taken, the allocator probes
  \<open>s, s + 1, \<dots>, n\<close> in this order; what the storage answers at \<open>n\<close> decides the
  result.
\<close>

lemma probe_upto:
  assumes "0 < s" and "s \<le> n"
    and "\<And>k. s \<le> k \<Longrightarrow> k < n \<Longrightarrow> \<exists>u. f (uname @ show_nat k) = Inr (Some u)"
    and "f (uname @ show_nat n) = Inr None \<or> (\<exists>e. f (uname @ show_nat n) = Inl e)"
  shows "findUniqueUsername f uname (Some s) probes =
     Some (probes @ map (\<lambda>k. uname @ show_nat k) [s..<Suc n],
           if f (uname @ show_nat n) = Inr None then Some (uname @ show_nat n) else None)"
  using assms
proof (induction "n - s" arbitrary: s probes)
  case 0
  then have "s = n" by simp
  with "0.prems" show ?case
    by (subst findUniqueUsername.simps) (auto simp: Let_def)
next
  case (Suc d)
  then have lt: "s < n" by simp
  with Suc.prems(3)[of s] obtain u where u: "f (uname @ show_nat s) = Inr (Some u)"
    by auto
  have step: "findUniqueUsername f uname (Some s) probes =
      findUniqueUsername f uname (Some (Suc s)) (probes @ [uname @ show_nat s])"
    using u Suc.prems(1) by (simp add: findUniqueUsername_taken)
  have d: "d = n - Suc s"
    using Suc.hyps(2) by simp
  have rest: "findUniqueUsername f uname (Some (Suc s)) (probes @ [uname @ show_nat s]) =
      Some ((probes @ [uname @ show_nat s]) @ map (\<lambda>k. uname @ show_nat k) [Suc s..<Suc n],
            if f (uname @ show_nat n) = Inr None then Some (uname @ show_nat n) else None)"
    using lt Suc.prems(3,4) by (intro Suc.hyps(1)[OF d]) auto
  have "[s..<Suc n] = s # [Suc s..<Suc n]"
    using lt by (simp add: upt_conv_Cons)
  with step rest show ?case by simp
qed

subsection \<open>A free name exists\<close>

lemma lookup_None: "lookup db q = None \<longleftrightarrow> Some q \<notin> username ` set db"
  by (force simp: lookup_def find_None_iff image_iff)

text \<open>
  A collection holds finitely many usernames and the candidates \<open>base1\<close>,
  \<open>base2\<close>, \<open>\<dots>\<close> are pairwise different, so one of them is free.
\<close>

lemma free_suffix_exists: "\<exists>n>0. lookup db (base @ show_nat n) = None"
proof -
  let ?g = "\<lambda>n. Some (base @ show_nat n)"
  have "inj ?g"
    by (auto intro!: injI dest: show_nat_inj)
  then have "finite (?g -` (username ` set db))"
    by (intro finite_vimageI) simp_all
  then have "finite (insert 0 (?g -` (username ` set db)))"
    by simp
  then obtain n where "n \<notin> insert 0 (?g -` (username ` set db))"
    using ex_new_if_finite infinite_UNIV_nat by blast
  then have "0 < n \<and> lookup db (base @ show_nat n) = None"
    by (simp add: lookup_None)
  then show ?thesis by blast
qed

text \<open>
  C2. On an error-free collection, \<open>findUniqueUsername\<close> called with a base name and
  no suffix returns: the base name itself when no document has it; otherwise the base
  name followed by the least positive \<open>n\<close> for which that name is free. Such an \<open>n\<close>
  exists, so the call returns. The storage is queried for the base name, then for the
  suffixes \<open>1, 2, 3, \<dots>\<close> in this order, up to the name returned.
\<close>

theorem findUniqueUsername_first_free:
  "(\<exists>n>0. lookup db (base @ show_nat n) = None) \<and>
   findUniqueUsername (collection_findOne db :: ('e, user) findOne) base None [] = Some (
     if lookup db base = None then ([base], Some base)
     else (base # map (\<lambda>k. base @ show_nat k)
                    [1..<Suc (LEAST n. 0 < n \<and> lookup db (base @ show_nat n) = None)],
           Some (base @ show_nat (LEAST n. 0 < n \<and> lookup db (base @ show_nat n) = None))))"
proof (intro conjI free_suffix_exists)
  let ?P = "\<lambda>n. 0 < n \<and> lookup db (base @ show_nat n) = None"
  let ?f = "collection_findOne db :: ('e, user) findOne"
  show "findUniqueUsername ?f base None [] = Some (
     if lookup db base = None then ([base], Some base)
     else (base # map (\<lambda>k. base @ show_nat k) [1..<Suc (Least ?P)],
           Some (base @ show_nat (Least ?P))))"
  proof (cases "lookup db base")
    case None
    then have "?f (base @ suffix_or_empty None) = Inr None"
      by (simp add: collection_findOne_def)
    from findUniqueUsername_free[of ?f base None "[]", OF this] None show ?thesis
      by simp
  next
    case (Some u)
    then have "?f (base @ suffix_or_empty None) = Inr (Some u)"
      by (simp add: collection_findOne_def)
    from findUniqueUsername_taken[of ?f base None u "[]", OF this]
    have first: "findUniqueUsername ?f base None [] = findUniqueUsername ?f base (Some 1) [base]"
      by simp
    obtain n where "?P n"
      using free_suffix_exists by blast
    then have L: "?P (Least ?P)"
      by (rule LeastI)
    have below: "\<exists>u. ?f (base @ show_nat k) = Inr (Some u)" if "1 \<le> k" "k < Least ?P" for k
    proof -
      from that(2) have "\<not> ?P k" by (rule not_less_Least)
      with that(1) show ?thesis by (auto simp: collection_findOne_def)
    qed
    have free: "?f (base @ show_nat (Least ?P)) = Inr None"
      using L by (simp add: collection_findOne_def)
    have "findUniqueUsername ?f base (Some 1) [base] =
      Some ([base] @ map (\<lambda>k. base @ show_nat k) [1..<Suc (Least ?P)],
            if ?f (base @ show_nat (Least ?P)) = Inr None
            then Some (base @ show_nat (Least ?P)) else None)"
      using L below free by (intro probe_upto) auto
    with first free Some show ?thesis by simp
  qed
qed

theorem findUniqueUsername_first_free_witness:
  "findUniqueUsername (collection_findOne
       [new_user\<lparr>username := Some ''alice''\<rparr>, new_user\<lparr>username := Some ''alice1''\<rparr>,
        new_user\<lparr>username := Some ''alice2''\<rparr>] :: (unit, user) findOne) ''alice'' None [] =
     Some ([''alice'', ''alice1'', ''alice2'', ''alice3''], Some ''alice3'') \<and>
   findUniqueUsername (collection_findOne
       [new_user\<lparr>username := Some ''alice''\<rparr>, new_user\<lparr>username := Some ''alice1''\<rparr>,
        new_user\<lparr>username := Some ''alice2''\<rparr>] :: (unit, user) findOne) ''bob'' None [] =
     Some ([''bob''], Some ''bob'')"
proof -
  let ?db = "[new_user\<lparr>username := Some ''alice''\<rparr>, new_user\<lparr>username := Some ''alice1''\<rparr>,
        new_user\<lparr>username := Some ''alice2''\<rparr>]"
  let ?P = "\<lambda>n. 0 < n \<and> lookup ?db (''alice'' @ show_nat n) = None"
  have P3: "?P 3"
    by (simp add: lookup_def show_nat_examples)
  have nP: "\<not> ?P 1" "\<not> ?P 2"
    by (simp_all add: lookup_def show_nat_examples)
  have "Least ?P = 3"
  proof (rule Least_equality)
    show "?P 3" by (rule P3)
  next
    fix y assume y: "?P y"
    show "3 \<le> y"
    proof (rule ccontr)
      assume "\<not> 3 \<le> y"
      with y have "y = 1 \<or> y = 2" by auto
      with y nP show False by metis
    qed
  qed
  moreover have "[1..<Suc 3] = [1, 2, 3]"
    by (simp add: upt_rec)
  moreover have "lookup ?db ''alice'' \<noteq> None" "lookup ?db ''bob'' = None"
    by (simp_all add: lookup_def)
  ultimately show ?thesis
    using findUniqueUsername_first_free[of ?db "''alice''", where 'e = unit]
      findUniqueUsername_first_free[of ?db "''bob''", where 'e = unit]
    by (simp add: show_nat_examples)
qed

text \<open>
  C9. Whatever the base name and the suffix, when the storage answers the lookup of
  the candidate with an error, \<open>findUniqueUsername\<close> calls its callback with
  \<open>null\<close>: the run ends, with no name, after that one query.
\<close>

theorem findUniqueUsername_storage_error:
  "findOne (uname @ suffix_or_empty suffix) = Inl err \<Longrightarrow>
   findUniqueUsername findOne uname suffix probes =
     Some (probes @ [uname @ suffix_or_empty suffix], None)"
  by (subst findUniqueUsername.simps) (simp add: Let_def)

theorem findUniqueUsername_storage_error_witness:
  "findUniqueUsername
     (\<lambda>q. if q = ''alice1'' then Inl ''connection lost'' else (Inr None :: string + user option))
     ''alice'' (Some 1) [] = Some ([''alice1''], None) \<and>
   findUniqueUsername (\<lambda>q. (Inl ''connection lost'' :: string + user option)) ''bob'' None [] =
     Some ([''bob''], None)"
  using
    findUniqueUsername_storage_error[of
      "\<lambda>q. if q = ''alice1'' then Inl ''connection lost'' else (Inr None :: string + user option)"
      "''alice''" "Some 1" "''connection lost''" "[]"]
    findUniqueUsername_storage_error[of
      "\<lambda>q. (Inl ''connection lost'' :: string + user option)" "''bob''" None "''connection lost''" "[]"]
  by (simp add: show_nat_examples)

text \<open>The same when the error comes after names that were taken.\<close>

lemma findUniqueUsername_error_later:
  assumes "0 < s" and "s \<le> n"
    and "\<And>k. s \<le> k \<Longrightarrow> k < n \<Longrightarrow> \<exists>u. f (uname @ show_nat k) = Inr (Some u)"
    and "f (uname @ show_nat n) = Inl e"
  shows "findUniqueUsername f uname (Some s) probes =
     Some (probes @ map (\<lambda>k. uname @ show_nat k) [s..<Suc n], None)"
  using probe_upto[of s n f uname probes] assms by auto

end
